theory Spec2Isabelle
  imports Main "HOL-Library.Word" "HOL-Library.Signed_Division" "HOL-Library.Finite_Map"
    "HOL-Library.Multiset"
begin

section \<open>Values, errors and cell identifiers\<close>

text \<open>
  Go's \<^verbatim>\<open>int\<close> is the 64-bit two's complement integer the source's comments speak of
  (\<^verbatim>\<open>TODO: check for 64-bit integer overflow\<close>): \<open>+\<close>, \<open>-\<close> and \<open>*\<close> wrap around.
  A Go string is modelled as its list of bytes; the characters the program tests for
  (\<^verbatim>\<open>=\<close>, the space, \<^verbatim>\<open>A-Z\<close>, \<^verbatim>\<open>0-9\<close> and the operators) are all ASCII, and every byte
  of a multi-byte rune fails each of these tests as the rune itself does.
\<close>

type_synonym goint = "64 word"

text \<open>
  The sentinel errors of the package (a wrapped \<^verbatim>\<open>fmt.Errorf("%w: ...", ErrX)\<close> is the
  sentinel \<open>ErrX\<close>), the errors built by \<^verbatim>\<open>fmt.Errorf\<close> without a sentinel
  (\<open>ErrPlain\<close>), and the run-time panic of an index out of range (\<open>Panic\<close>).
\<close>

datatype error = ErrParseCellID | ErrValueType | ErrExprParse | ErrCircRef | ErrPlain | Panic

datatype CellID = CellID (row: goint) (column: goint)

section \<open>The cell address codec\<close>

definition between :: "char \<Rightarrow> char \<Rightarrow> char \<Rightarrow> bool" where
  "between target lb ub \<longleftrightarrow>
     (of_char lb :: nat) \<le> of_char target \<and> (of_char target :: nat) \<le> of_char ub"

definition upper :: "char \<Rightarrow> bool" where
  "upper c = between c (CHR ''A'') (CHR ''Z'')"

definition digit :: "char \<Rightarrow> bool" where
  "digit c = between c (CHR ''0'') (CHR ''9'')"

text \<open>
  \<^verbatim>\<open>cellRegexp = regexp.MustCompile("([A-Z]+)([0-9]+)")\<close> has no anchors.
  \<open>matchHere\<close> is a match of the expression that starts at the head of the string: both
  groups are greedy, so the first is the whole run of capital letters and the second the
  whole run of digits after it (a shorter first group would have to be followed by a
  digit, and is followed by a letter). \<open>FindStringSubmatch\<close> is the library's search for
  the leftmost match: it tries every start in turn. It returns the two groups, where the
  library returns the slice of three strings (the match and the groups).
\<close>

definition matchHere :: "string \<Rightarrow> (string \<times> string) option" where
  "matchHere s =
     (let letters = takeWhile upper s;
          digits = takeWhile digit (dropWhile upper s)
      in if letters \<noteq> [] \<and> digits \<noteq> [] then Some (letters, digits) else None)"

fun FindStringSubmatch :: "string \<Rightarrow> (string \<times> string) option" where
  "FindStringSubmatch [] = None"
| "FindStringSubmatch (c # cs) =
     (case matchHere (c # cs) of
        Some groups \<Rightarrow> Some groups
      | None \<Rightarrow> FindStringSubmatch cs)"

text \<open>
  \<^verbatim>\<open>decodeRowExpr\<close>: the first loop refuses a rune outside \<^verbatim>\<open>A-Z\<close>, the second reverses
  the runes, the third sums \<^verbatim>\<open>digit * currBase\<close> with \<^verbatim>\<open>currBase\<close> multiplied by 26 at
  each step, in machine integers.
\<close>

fun checkRunes :: "string \<Rightarrow> bool" where
  "checkRunes [] = True"
| "checkRunes (ch # rest) =
     (if (of_char ch :: nat) < of_char (CHR ''A'') \<or> (of_char (CHR ''Z'') :: nat) < of_char ch
      then False else checkRunes rest)"

fun sumRunes :: "string \<Rightarrow> goint \<Rightarrow> goint \<Rightarrow> goint" where
  "sumRunes [] currBase sofar = sofar"
| "sumRunes (r # runes) currBase sofar =
     sumRunes runes (currBase * 26)
       (sofar + of_nat (of_char r - of_char (CHR ''A'') + 1) * currBase)"

definition decodeRowExpr :: "string \<Rightarrow> error + goint" where
  "decodeRowExpr str =
     (if \<not> checkRunes str then Inl ErrParseCellID
      else Inr (sumRunes (rev str) 1 0 - 1))"

text \<open>
  \<^verbatim>\<open>strconv.Atoi\<close> of the Go library: an optional sign, then one or more decimal digits
  and nothing else; the value must fit the 64-bit \<^verbatim>\<open>int\<close>, or the call fails with a
  range error.
\<close>

fun decimal :: "string \<Rightarrow> nat" where
  "decimal s = foldl (\<lambda>n ch. 10 * n + (of_char ch - of_char (CHR ''0''))) 0 s"

definition Atoi :: "string \<Rightarrow> goint option" where
  "Atoi s =
     (let neg = (s \<noteq> [] \<and> hd s = CHR ''-'');
          body = (if s \<noteq> [] \<and> (hd s = CHR ''+'' \<or> hd s = CHR ''-'') then tl s else s)
      in if body = [] \<or> \<not> list_all digit body then None
         else if neg then
           (if decimal body \<le> 2 ^ 63 then Some (- of_nat (decimal body)) else None)
         else
           (if decimal body < 2 ^ 63 then Some (of_nat (decimal body)) else None))"

definition ParseCellID :: "string \<Rightarrow> error + CellID" where
  "ParseCellID str =
     (case FindStringSubmatch str of
        None \<Rightarrow> Inl ErrParseCellID
      | Some (rowExpr, colExpr) \<Rightarrow>
          (case decodeRowExpr rowExpr of
             Inl err \<Rightarrow> Inl ErrParseCellID
           | Inr rowIdx \<Rightarrow>
               (case Atoi colExpr of
                  None \<Rightarrow> Inl ErrParseCellID
                | Some colIdx \<Rightarrow> Inr (CellID rowIdx (colIdx - 1)))))"

text \<open>
  The value of an address as the specification words it, on natural numbers: the letter
  run read as a bijective base-26 numeral (\<^verbatim>\<open>A\<close> = 1, ..., \<^verbatim>\<open>Z\<close> = 26, \<^verbatim>\<open>AA\<close> = 27); the
  decimal value of the digit run is \<open>decimal\<close> above.
\<close>

definition letterValue :: "char \<Rightarrow> nat" where
  "letterValue c = of_char c - 64"

definition bijective26 :: "string \<Rightarrow> nat" where
  "bijective26 letters = foldl (\<lambda>n c. 26 * n + letterValue c) 0 letters"

text \<open>What the summing loop computes on the reversed runes: the least significant letter first.\<close>

fun littleEndian :: "string \<Rightarrow> nat" where
  "littleEndian [] = 0"
| "littleEndian (r # runes) = (of_char r - of_char (CHR ''A'') + 1) + 26 * littleEndian runes"

section \<open>The tokenizer\<close>

type_synonym Token = string

definition TokenAdd :: Token where "TokenAdd = ''+''"
definition TokenSub :: Token where "TokenSub = ''-''"
definition TokenMul :: Token where "TokenMul = ''*''"
definition TokenDiv :: Token where "TokenDiv = ''/''"
definition TokenRPar :: Token where "TokenRPar = '')''"
definition TokenLPar :: Token where "TokenLPar = ''(''"

text \<open>
  \<^verbatim>\<open>runeMap\<close> of \<^verbatim>\<open>src/internal/expr.go\<close> has the four operators; the later revision of
  the file (\<^verbatim>\<open>src/unnamed/part_001\<close>) adds the two parentheses. \<^verbatim>\<open>tokenize\<close> is the same
  text in both, so the model takes the map as a parameter.
\<close>

definition runeMap :: "char \<rightharpoonup> Token" where
  "runeMap = [CHR ''+'' \<mapsto> TokenAdd, CHR ''-'' \<mapsto> TokenSub, CHR ''*'' \<mapsto> TokenMul,
              CHR ''/'' \<mapsto> TokenDiv]"

definition runeMapPar :: "char \<rightharpoonup> Token" where
  "runeMapPar = runeMap(CHR ''('' \<mapsto> TokenLPar, CHR '')'' \<mapsto> TokenRPar)"

text \<open>
  \<^verbatim>\<open>for runes[i] == ' ' { i++ }\<close>: the index is not compared with the length, so the read
  \<^verbatim>\<open>runes[i]\<close> panics when \<open>i\<close> reaches it.
\<close>

function skipSpaces :: "string \<Rightarrow> nat \<Rightarrow> error + nat" where
  "skipSpaces runes i =
     (if \<not> i < length runes then Inl Panic
      else if runes ! i = CHR '' '' then skipSpaces runes (i + 1)
      else Inr i)"
  by pat_completeness auto
termination
  by (relation "measure (\<lambda>(runes, i). length runes - i)") auto

text \<open>\<^verbatim>\<open>for i < len(runes) && p(runes[i]) { i++ }\<close>, the loop that reads a run of characters.\<close>

function scanRun :: "(char \<Rightarrow> bool) \<Rightarrow> string \<Rightarrow> nat \<Rightarrow> nat" where
  "scanRun p runes i =
     (if i < length runes \<and> p (runes ! i) then scanRun p runes (i + 1) else i)"
  by pat_completeness auto
termination
  by (relation "measure (\<lambda>(p, runes, i). length runes - i)") auto

lemma skipSpaces_ge: "skipSpaces runes i = Inr j \<Longrightarrow> i \<le> j \<and> j < length runes"
proof (induction runes i rule: skipSpaces.induct)
  case (1 runes i)
  then show ?case
    by (simp split: if_splits)
qed

lemma scanRun_ge: "i \<le> scanRun p runes i"
proof (induction p runes i rule: scanRun.induct)
  case (1 p runes i)
  then show ?case
    by (cases "i < length runes \<and> p (runes ! i)") simp_all
qed


lemma scanRun_gt: "i < length runes \<Longrightarrow> p (runes ! i) \<Longrightarrow> i < scanRun p runes i"
  using scanRun_ge [of "i + 1" p runes] by simp

declare skipSpaces.simps [simp del] scanRun.simps [simp del]

text \<open>
  The body of the outer loop of \<^verbatim>\<open>tokenize\<close>, from index \<open>i\<close> with the tokens found so
  far. A run ends at \<open>k\<close>; the source steps back (\<^verbatim>\<open>i--\<close>) and the loop header steps forward
  (\<^verbatim>\<open>i++\<close>), so the next turn starts at \<open>k - 1 + 1\<close>. \<^verbatim>\<open>runes[start:i]\<close> is
  \<open>take (i - start) (drop start runes)\<close>.
\<close>

function tokenLoop :: "(char \<rightharpoonup> Token) \<Rightarrow> string \<Rightarrow> nat \<Rightarrow> Token list \<Rightarrow> error + Token list" where
  "tokenLoop rm runes i tokens =
     (if \<not> i < length runes then Inr tokens
      else
        (case skipSpaces runes i of
           Inl err \<Rightarrow> Inl err
         | Inr j \<Rightarrow>
             if between (runes ! j) (CHR ''0'') (CHR ''9'') then
               (let k = scanRun (\<lambda>c. between c (CHR ''0'') (CHR ''9'')) runes j
                in tokenLoop rm runes (k - 1 + 1) (tokens @ [take (k - j) (drop j runes)]))
             else if between (runes ! j) (CHR ''A'') (CHR ''Z'') then
               (let k = scanRun (\<lambda>c. between c (CHR ''0'') (CHR ''9'') \<or>
                                       between c (CHR ''A'') (CHR ''Z'')) runes j
                in tokenLoop rm runes (k - 1 + 1) (tokens @ [take (k - j) (drop j runes)]))
             else
               (case rm (runes ! j) of
                  Some token \<Rightarrow> tokenLoop rm runes (j + 1) (tokens @ [token])
                | None \<Rightarrow> Inl ErrExprParse)))"
  by pat_completeness auto
termination
proof (relation "measure (\<lambda>(rm, runes, i, tokens). length runes - i)", goal_cases)
  case 1
  show ?case by simp
next
  case (2 rm runes i tokens j k)
  then have "i \<le> j" "j < length runes"
    using skipSpaces_ge by blast+
  moreover have "j < k"
    using 2 \<open>j < length runes\<close> scanRun_gt [of j runes "\<lambda>c. between c (CHR ''0'') (CHR ''9'')"]
    by simp
  ultimately show ?case by simp
next
  case (3 rm runes i tokens j k)
  then have "i \<le> j" "j < length runes"
    using skipSpaces_ge by blast+
  moreover have "j < k"
    using 3 \<open>j < length runes\<close>
      scanRun_gt [of j runes "\<lambda>c. between c (CHR ''0'') (CHR ''9'') \<or> between c (CHR ''A'') (CHR ''Z'')"]
    by simp
  ultimately show ?case by simp
next
  case (4 rm runes i tokens j token)
  then have "i \<le> j" "j < length runes"
    using skipSpaces_ge by blast+
  then show ?case by simp
qed

declare tokenLoop.simps [simp del]

text \<open>
  \<^verbatim>\<open>tokenize\<close>: \<^verbatim>\<open>runes[0]\<close> is read before any test of the length, so the empty string
  panics.
\<close>

definition tokenize :: "(char \<rightharpoonup> Token) \<Rightarrow> string \<Rightarrow> error + Token list" where
  "tokenize rm str =
     (case str of
        [] \<Rightarrow> Inl Panic
      | r # _ \<Rightarrow> if r \<noteq> CHR ''='' then Inl ErrExprParse else tokenLoop rm str 1 [])"

section \<open>The parser\<close>

text \<open>
  The expression tree of \<^verbatim>\<open>src/internal/expr.go\<close>; the fields stand in the order of the Go
  structs (\<^verbatim>\<open>UnaryExpr{X, Op}\<close>, \<^verbatim>\<open>BinaryExpr{X, Op, Y}\<close>).
\<close>

datatype Expr =
    UnaryExpr Expr Token
  | BinaryExpr Expr Token Expr
  | ConstExpr goint
  | CellRefExpr CellID

definition parsePrimary2 :: "Token list \<Rightarrow> error + Expr \<times> Token list" where
  "parsePrimary2 tokens =
     (case tokens of
        [] \<Rightarrow> Inl ErrExprParse
      | t # rest \<Rightarrow>
          (case ParseCellID t of
             Inr cellID \<Rightarrow> Inr (CellRefExpr cellID, rest)
           | Inl err \<Rightarrow>
               (case Atoi t of
                  Some val \<Rightarrow> Inr (ConstExpr val, rest)
                | None \<Rightarrow> Inl ErrExprParse)))"

fun parseUnary2 :: "Token list \<Rightarrow> error + Expr \<times> Token list" where
  "parseUnary2 [] = Inl ErrExprParse"
| "parseUnary2 (t # rest) =
     (if t = TokenSub then
        (case parseUnary2 rest of
           Inl err \<Rightarrow> Inl err
         | Inr (X, rest') \<Rightarrow> Inr (UnaryExpr X TokenSub, rest'))
      else parsePrimary2 (t # rest))"

lemma parsePrimary2_shorter:
  "parsePrimary2 tokens = Inr (e, rest) \<Longrightarrow> length rest < length tokens"
  by (auto simp: parsePrimary2_def split: list.splits sum.splits option.splits)

lemma parseUnary2_shorter:
  "parseUnary2 tokens = Inr (e, rest) \<Longrightarrow> length rest < length tokens"
proof (induction tokens arbitrary: e rest)
  case Nil
  then show ?case by simp
next
  case (Cons t ts)
  show ?case
  proof (cases "t = TokenSub")
    case True
    with Cons.prems obtain X where "parseUnary2 ts = Inr (X, rest)"
      by (auto split: sum.splits)
    then have "length rest < length ts" by (rule Cons.IH)
    then show ?thesis by simp
  next
    case False
    with Cons.prems show ?thesis
      using parsePrimary2_shorter [of "t # ts" e rest] by simp
  qed
qed

text \<open>
  \<^verbatim>\<open>parseFactor2\<close>: the left operand, then the loop that folds each \<^verbatim>\<open>*\<close> or \<^verbatim>\<open>/\<close> and
  its right operand into a \<^verbatim>\<open>BinaryExpr\<close> whose left child is the tree so far.
  \<open>factorLoop expr rest\<close> is the state of the source at the test of the rest: it returns
  when the rest is empty (the \<^verbatim>\<open>return\<close> before the loop and the \<^verbatim>\<open>break\<close> in it) or its
  first token is not an operator of the level (\<^verbatim>\<open>ok\<close> is false).
\<close>

function factorLoop :: "Expr \<Rightarrow> Token list \<Rightarrow> error + Expr \<times> Token list" where
  "factorLoop expr [] = Inr (expr, [])"
| "factorLoop expr (token # rest) =
     (if token = TokenMul \<or> token = TokenDiv then
        (case parseUnary2 rest of
           Inl err \<Rightarrow> Inl err
         | Inr (Y, rest') \<Rightarrow> factorLoop (BinaryExpr expr token Y) rest')
      else Inr (expr, token # rest))"
  by pat_completeness auto
termination
proof (relation "measure (\<lambda>(expr, tokens). length tokens)", goal_cases)
  case 1
  show ?case by simp
next
  case (2 expr token rest x2 Y rest')
  then show ?case
    using parseUnary2_shorter [of rest Y rest'] by simp
qed

definition parseFactor2 :: "Token list \<Rightarrow> error + Expr \<times> Token list" where
  "parseFactor2 tokens =
     (case parseUnary2 tokens of
        Inl err \<Rightarrow> Inl err
      | Inr (expr, rest) \<Rightarrow> factorLoop expr rest)"

lemma factorLoop_shorter:
  "factorLoop expr tokens = Inr (e, rest) \<Longrightarrow> length rest \<le> length tokens"
proof (induction expr tokens rule: factorLoop.induct)
  case (1 expr)
  then show ?case by simp
next
  case (2 expr token rest0)
  show ?case
  proof (cases "token = TokenMul \<or> token = TokenDiv")
    case True
    with "2.prems" obtain Y rest' where
      u: "parseUnary2 rest0 = Inr (Y, rest')" and
      l: "factorLoop (BinaryExpr expr token Y) rest' = Inr (e, rest)"
      by (auto split: sum.splits)
    from "2.IH" [OF True u refl l] have "length rest \<le> length rest'" .
    moreover have "length rest' < length rest0"
      using u by (rule parseUnary2_shorter)
    ultimately show ?thesis by simp
  next
    case False
    with "2.prems" show ?thesis by auto
  qed
qed

lemma parseFactor2_shorter:
  "parseFactor2 tokens = Inr (e, rest) \<Longrightarrow> length rest < length tokens"
proof -
  assume a: "parseFactor2 tokens = Inr (e, rest)"
  then obtain e0 rest0 where
    u: "parseUnary2 tokens = Inr (e0, rest0)" and l: "factorLoop e0 rest0 = Inr (e, rest)"
    by (auto simp: parseFactor2_def split: sum.splits)
  have "length rest \<le> length rest0" using l by (rule factorLoop_shorter)
  moreover have "length rest0 < length tokens" using u by (rule parseUnary2_shorter)
  ultimately show ?thesis by simp
qed

text \<open>\<^verbatim>\<open>parseTerm\<close>: the same loop one level up, for \<^verbatim>\<open>+\<close> and \<^verbatim>\<open>-\<close> over factors.\<close>

function termLoop :: "Expr \<Rightarrow> Token list \<Rightarrow> error + Expr \<times> Token list" where
  "termLoop expr [] = Inr (expr, [])"
| "termLoop expr (token # rest) =
     (if token = TokenAdd \<or> token = TokenSub then
        (case parseFactor2 rest of
           Inl err \<Rightarrow> Inl err
         | Inr (Y, rest') \<Rightarrow> termLoop (BinaryExpr expr token Y) rest')
      else Inr (expr, token # rest))"
  by pat_completeness auto
termination
proof (relation "measure (\<lambda>(expr, tokens). length tokens)", goal_cases)
  case 1
  show ?case by simp
next
  case (2 expr token rest x2 Y rest')
  then show ?case
    using parseFactor2_shorter [of rest Y rest'] by simp
qed

definition parseTerm :: "Token list \<Rightarrow> error + Expr \<times> Token list" where
  "parseTerm tokens =
     (case parseFactor2 tokens of
        Inl err \<Rightarrow> Inl err
      | Inr (expr, rest) \<Rightarrow> termLoop expr rest)"

definition parseExpr :: "Token list \<Rightarrow> error + Expr" where
  "parseExpr tokens =
     (case parseTerm tokens of
        Inl err \<Rightarrow> Inl err
      | Inr (expr, rest) \<Rightarrow> if rest \<noteq> [] then Inl ErrPlain else Inr expr)"

definition ParseExpr :: "string \<Rightarrow> error + Expr" where
  "ParseExpr str =
     (case tokenize runeMap str of
        Inl err \<Rightarrow> Inl err
      | Inr tokens \<Rightarrow> parseExpr tokens)"

text \<open>
  \<^verbatim>\<open>CellRefs\<close>: the type switch has the cases \<^verbatim>\<open>BinaryExpr\<close>, \<^verbatim>\<open>ConstExpr\<close> and
  \<^verbatim>\<open>CellRefExpr\<close>; a \<^verbatim>\<open>UnaryExpr\<close> matches none of them and reaches the final
  \<^verbatim>\<open>return nil\<close>.
\<close>

fun CellRefs :: "Expr \<Rightarrow> CellID list" where
  "CellRefs (BinaryExpr X Op Y) =
     (let r = CellRefs Y in if r = [] then CellRefs X else CellRefs X @ r)"
| "CellRefs (ConstExpr v) = []"
| "CellRefs (CellRefExpr ref) = [ref]"
| "CellRefs (UnaryExpr X Op) = []"

text \<open>
  The cell references that occur in an expression, as the specification's data model has
  them: every \<open>CellRefExpr\<close> anywhere in the tree.
\<close>

fun references :: "Expr \<Rightarrow> CellID set" where
  "references (UnaryExpr X Op) = references X"
| "references (BinaryExpr X Op Y) = references X \<union> references Y"
| "references (ConstExpr v) = {}"
| "references (CellRefExpr ref) = {ref}"

section \<open>The spreadsheet\<close>

text \<open>
  The structs of the last revision of \<^verbatim>\<open>spreadsheet.go\<close> (\<^verbatim>\<open>src/unnamed/part_004\<close>, the
  one with \<^verbatim>\<open>topSort\<close>). A Go map is a finite map; a set \<^verbatim>\<open>map[CellID]struct{}\<close> is
  the list of its keys, without repetitions, in no meaningful order. \<^verbatim>\<open>expr *Expr\<close> is
  \<open>None\<close> for \<^verbatim>\<open>nil\<close>.
\<close>

record Cell =
  currValue :: goint
  expr :: "Expr option"

record Spreadsheet =
  cells :: "(CellID, Cell) fmap"
  refersTo :: "(CellID, CellID list) fmap"
  referredFrom :: "(CellID, CellID list) fmap"

definition NewSpreadsheet :: Spreadsheet where
  "NewSpreadsheet = \<lparr>cells = fmempty, refersTo = fmempty, referredFrom = fmempty\<rparr>"

text \<open>
  Go leaves the order in which \<^verbatim>\<open>range\<close> visits the keys of a map unspecified. Every
  function that ranges over a map takes the order as a parameter \<open>ord\<close>, from the list of
  keys to the sequence in which the loop meets them; \<open>rangeOrder ord\<close> says that it is a
  rearrangement of the keys. Ranging over the \<^verbatim>\<open>nil\<close> map of a missing key runs no
  iteration.
\<close>

definition rangeOrder :: "(CellID list \<Rightarrow> CellID list) \<Rightarrow> bool" where
  "rangeOrder ord \<longleftrightarrow> (\<forall>keys. mset (ord keys) = mset keys)"

definition rangeKeys ::
  "(CellID list \<Rightarrow> CellID list) \<Rightarrow> (CellID, CellID list) fmap \<Rightarrow> CellID \<Rightarrow> CellID list" where
  "rangeKeys ord m k = (case fmlookup m k of None \<Rightarrow> [] | Some keys \<Rightarrow> ord keys)"

text \<open>The keys of the set stored under \<open>k\<close>; a missing key reads as the empty set.\<close>

definition members :: "(CellID, CellID list) fmap \<Rightarrow> CellID \<Rightarrow> CellID set" where
  "members m k = (case fmlookup m k of None \<Rightarrow> {} | Some keys \<Rightarrow> set keys)"

text \<open>\<^verbatim>\<open>m[k][x] = struct{}{}\<close> on an existing inner map, and \<^verbatim>\<open>delete(m[k], x)\<close>.\<close>

definition addKey :: "CellID \<Rightarrow> CellID list \<Rightarrow> CellID list" where
  "addKey x keys = (if x \<in> set keys then keys else keys @ [x])"

definition deleteKey ::
  "(CellID, CellID list) fmap \<Rightarrow> CellID \<Rightarrow> CellID \<Rightarrow> (CellID, CellID list) fmap" where
  "deleteKey m k x =
     (case fmlookup m k of None \<Rightarrow> m | Some keys \<Rightarrow> fmupd k (removeAll x keys) m)"

definition clearKeys :: "(CellID, CellID list) fmap \<Rightarrow> CellID \<Rightarrow> (CellID, CellID list) fmap" where
  "clearKeys m k = (case fmlookup m k of None \<Rightarrow> m | Some keys \<Rightarrow> fmupd k [] m)"

definition addCellReferral :: "Spreadsheet \<Rightarrow> CellID \<Rightarrow> CellID \<Rightarrow> Spreadsheet" where
  "addCellReferral s source target =
     (let rt = (if fmlookup (refersTo s) source = None
                then fmupd source [] (refersTo s) else refersTo s);
          rf = (if fmlookup (referredFrom s) target = None
                then fmupd target [] (referredFrom s) else referredFrom s)
      in s\<lparr>refersTo := fmupd source (addKey target (rangeKeys (\<lambda>keys. keys) rt source)) rt,
            referredFrom := fmupd target (addKey source (rangeKeys (\<lambda>keys. keys) rf target)) rf\<rparr>)"

subsection \<open>The evaluator\<close>

text \<open>
  Go's \<^verbatim>\<open>x / y\<close> on \<^verbatim>\<open>int\<close>: a run-time panic when \<open>y\<close> is zero, else the quotient
  truncated towards zero, in 64 bits (the one overflow, the least integer by \<open>-1\<close>, wraps
  around to the least integer).
\<close>

definition goQuo :: "goint \<Rightarrow> goint \<Rightarrow> error + goint" where
  "goQuo x y = (if y = 0 then Inl Panic else Inr (word_of_int (sint x sdiv sint y)))"

fun evalExpr :: "Spreadsheet \<Rightarrow> Expr \<Rightarrow> error + goint" where
  "evalExpr s (UnaryExpr X Op) =
     (if Op = TokenSub then
        (case evalExpr s X of Inl err \<Rightarrow> Inl err | Inr x \<Rightarrow> Inr (- x))
      else Inr 0)"
| "evalExpr s (BinaryExpr X Op Y) =
     (case evalExpr s X of
        Inl err \<Rightarrow> Inl err
      | Inr x \<Rightarrow>
          (case evalExpr s Y of
             Inl err \<Rightarrow> Inl err
           | Inr y \<Rightarrow>
               if Op = TokenAdd then Inr (x + y)
               else if Op = TokenMul then Inr (x * y)
               else if Op = TokenSub then Inr (x - y)
               else if Op = TokenDiv then (if y = 0 then Inr 0 else goQuo x y)
               else Inr 0))"
| "evalExpr s (ConstExpr v) = Inr v"
| "evalExpr s (CellRefExpr ref) =
     (case fmlookup (cells s) ref of
        Some cell \<Rightarrow> Inr (currValue cell)
      | None \<Rightarrow> Inr 0)"

definition eval :: "Spreadsheet \<Rightarrow> CellID \<Rightarrow> error + goint" where
  "eval s cid =
     (case fmlookup (cells s) cid of
        None \<Rightarrow> Inr 0
      | Some cell \<Rightarrow>
          (case expr cell of
             None \<Rightarrow> Inr (currValue cell)
           | Some e \<Rightarrow> evalExpr s e))"

subsection \<open>The roots and the topological sort\<close>

text \<open>
  \<^verbatim>\<open>rootReferrers\<close>: the breadth-first search over \<^verbatim>\<open>referredFrom\<close>. \<open>enqueue\<close> is the
  body of the inner loop, \<open>rootLoop\<close> the outer loop on the frontier.
\<close>

definition enqueue :: "CellID \<Rightarrow> CellID list \<times> CellID set \<Rightarrow> CellID list \<times> CellID set" where
  "enqueue referer fs =
     (if referer \<in> snd fs then fs else (fst fs @ [referer], insert referer (snd fs)))"

lemma enqueue_pair:
  "enqueue x (f, sn) = (if x \<in> sn then (f, sn) else (f @ [x], insert x sn))"
  by (simp add: enqueue_def)

lemma fold_enqueue:
  "fold enqueue xs (f, sn) = (f', sn') \<Longrightarrow>
     sn \<subseteq> sn' \<and> sn' \<subseteq> sn \<union> set xs \<and> (sn' = sn \<longrightarrow> f' = f)"
proof (induction xs arbitrary: f sn)
  case Nil
  then show ?case by simp
next
  case (Cons x xs)
  show ?case
  proof (cases "x \<in> sn")
    case True
    with Cons.prems have "fold enqueue xs (f, sn) = (f', sn')"
      by (simp add: enqueue_pair)
    from Cons.IH [OF this] show ?thesis by auto
  next
    case False
    with Cons.prems have "fold enqueue xs (f @ [x], insert x sn) = (f', sn')"
      by (simp add: enqueue_pair)
    from Cons.IH [OF this] False show ?thesis by auto
  qed
qed

function rootLoop ::
  "(CellID list \<Rightarrow> CellID list) \<Rightarrow> (CellID, CellID list) fmap \<Rightarrow> CellID list \<Rightarrow> CellID set \<Rightarrow>
     CellID list \<Rightarrow> CellID list" where
  "rootLoop ord rf [] seen startCells = startCells"
| "rootLoop ord rf (cur # frontier) seen startCells =
     (let startCells' =
            (case fmlookup rf cur of
               None \<Rightarrow> startCells @ [cur]
             | Some referrers \<Rightarrow>
                 if length referrers = 0 then startCells @ [cur] else startCells);
          fs = fold enqueue (rangeKeys ord rf cur) (frontier, seen)
      in rootLoop ord rf (fst fs) (snd fs) startCells')"
  by pat_completeness auto
termination
proof (relation "inv_image (less_than <*lex*> less_than)
    (\<lambda>(ord, rf, frontier, seen, startCells).
       (card ((\<Union>keys \<in> fmran' rf. set (ord keys)) - seen), length frontier))", goal_cases)
  case 1
  show ?case by (intro wf_inv_image wf_lex_prod wf_less_than)
next
  case (2 ord rf cur frontier seen startCells startCells' fs)
  define U where "U = (\<Union>keys \<in> fmran' rf. set (ord keys))"
  have fin: "finite U"
    unfolding U_def by (simp add: fmran'_alt_def)
  obtain f' sn' where fs: "fold enqueue (rangeKeys ord rf cur) (frontier, seen) = (f', sn')"
    by (cases "fold enqueue (rangeKeys ord rf cur) (frontier, seen)")
  from fold_enqueue [OF fs] have
    sub: "seen \<subseteq> sn'" and new: "sn' \<subseteq> seen \<union> set (rangeKeys ord rf cur)" and
    same: "sn' = seen \<longrightarrow> f' = frontier"
    by auto
  have inU: "set (rangeKeys ord rf cur) \<subseteq> U"
  proof (cases "fmlookup rf cur")
    case None
    then show ?thesis by (simp add: rangeKeys_def)
  next
    case (Some keys)
    then have "keys \<in> fmran' rf" by (rule fmran'I)
    then show ?thesis using Some by (auto simp: rangeKeys_def U_def)
  qed
  show ?case
  proof (cases "sn' = seen")
    case True
    with same 2 fs show ?thesis by (simp add: U_def)
  next
    case False
    with sub obtain x where x: "x \<in> sn'" "x \<notin> seen" by auto
    with new inU have "x \<in> U" by auto
    with x sub have "U - sn' \<subset> U - seen" by auto
    then have "card (U - sn') < card (U - seen)"
      using fin by (intro psubset_card_mono) simp_all
    with 2 fs show ?thesis by (simp add: U_def)
  qed
qed

definition rootReferrers :: "(CellID list \<Rightarrow> CellID list) \<Rightarrow> Spreadsheet \<Rightarrow> CellID \<Rightarrow> CellID list" where
  "rootReferrers ord s cid =
     (let startCells = rootLoop ord (referredFrom s) [cid] {cid} []
      in if length startCells = 0 then [cid] else startCells)"

text \<open>
  \<^verbatim>\<open>topSort\<close>: the three variables the closure \<^verbatim>\<open>visit\<close> shares are the record \<open>marks\<close>.
  \<open>visit\<close> is the closure, \<open>visitEach\<close> a loop that calls it on each node of a list and
  stops at the first error: the loop over the neighbours inside the closure, and the loop
  over the start nodes in \<^verbatim>\<open>topSort\<close>.
\<close>

record marks =
  perm :: "CellID set"
  temp :: "CellID set"
  result :: "CellID list"

function visit ::
    "(CellID list \<Rightarrow> CellID list) \<Rightarrow> (CellID, CellID list) fmap \<Rightarrow> CellID \<Rightarrow> marks \<Rightarrow> error + marks"
  and visitEach ::
    "(CellID list \<Rightarrow> CellID list) \<Rightarrow> (CellID, CellID list) fmap \<Rightarrow> CellID list \<Rightarrow> marks \<Rightarrow>
       error + marks"
  where
  "visit ord rt cur m =
     (if cur \<in> perm m then Inr m
      else if cur \<in> temp m then Inl ErrCircRef
      else
        (case visitEach ord rt (rangeKeys ord rt cur) (m\<lparr>temp := insert cur (temp m)\<rparr>) of
           Inl err \<Rightarrow> Inl err
         | Inr m' \<Rightarrow>
             Inr (m'\<lparr>temp := temp m' - {cur}, perm := insert cur (perm m'),
                      result := result m' @ [cur]\<rparr>)))"
| "visitEach ord rt [] m = Inr m"
| "visitEach ord rt (neighbor # rest) m =
     (case visit ord rt neighbor m of
        Inl err \<Rightarrow> Inl err
      | Inr m' \<Rightarrow> visitEach ord rt rest m')"
  by pat_completeness auto

text \<open>
  A visit that returns leaves every mark it found in place (a node only moves from
  \<open>temp\<close> to \<open>perm\<close>); the recursion ends because each nested visit marks a node of the
  graph that had no mark.
\<close>

lemma visit_marked_mono:
  "visit_visitEach_dom (Inl (ord, rt, cur, m)) \<Longrightarrow> visit ord rt cur m = Inr m' \<Longrightarrow>
     perm m \<union> temp m \<subseteq> perm m' \<union> temp m'"
  "visit_visitEach_dom (Inr (ord, rt, ns, m)) \<Longrightarrow> visitEach ord rt ns m = Inr m' \<Longrightarrow>
     perm m \<union> temp m \<subseteq> perm m' \<union> temp m'"
proof (induction ord rt cur m and ord rt ns m arbitrary: m' and m' rule: visit_visitEach.pinduct)
  case (1 ord rt cur m)
  show ?case
  proof (cases "cur \<in> perm m")
    case True
    with 1 show ?thesis by (simp add: visit.psimps)
  next
    case False
    with 1 have nt: "cur \<notin> temp m"
      by (auto simp: visit.psimps split: if_splits)
    with False 1 obtain m1 where
      e: "visitEach ord rt (rangeKeys ord rt cur) (m\<lparr>temp := insert cur (temp m)\<rparr>) = Inr m1" and
      m': "m' = m1\<lparr>temp := temp m1 - {cur}, perm := insert cur (perm m1),
                    result := result m1 @ [cur]\<rparr>"
      by (auto simp: visit.psimps split: sum.splits)
    from "1.IH" [OF False nt e] have "perm m \<union> insert cur (temp m) \<subseteq> perm m1 \<union> temp m1"
      by simp
    then show ?thesis unfolding m' by auto
  qed
next
  case (2 ord rt m)
  then show ?case by (simp add: visitEach.psimps)
next
  case (3 ord rt neighbor rest m)
  then obtain m1 where
    v: "visit ord rt neighbor m = Inr m1" and e: "visitEach ord rt rest m1 = Inr m'"
    by (auto simp: visitEach.psimps split: sum.splits)
  from "3.IH"(1) [OF v] "3.IH"(2) [OF v e] show ?case by blast
qed

termination visit
proof (relation "inv_image (less_than <*lex*> less_than)
    (\<lambda>x. case x of
       Inl (ord, rt, cur, m) \<Rightarrow> (card (fmdom' rt - (perm m \<union> temp m)), 1)
     | Inr (ord, rt, ns, m) \<Rightarrow> (card (fmdom' rt - (perm m \<union> temp m)), 2 * length ns))",
    goal_cases)
  case 1
  show ?case by (intro wf_inv_image wf_lex_prod wf_less_than)
next
  case (2 ord rt cur m)
  show ?case
  proof (cases "cur \<in> fmdom' rt")
    case True
    have "fmdom' rt - (perm m \<union> insert cur (temp m)) \<subset> fmdom' rt - (perm m \<union> temp m)"
      using True 2 by auto
    then have "card (fmdom' rt - (perm m \<union> insert cur (temp m)))
        < card (fmdom' rt - (perm m \<union> temp m))"
      by (intro psubset_card_mono) simp_all
    then show ?thesis by simp
  next
    case False
    then have "rangeKeys ord rt cur = []"
      by (simp add: rangeKeys_def fmdom'_notD)
    moreover have "fmdom' rt - (perm m \<union> insert cur (temp m)) = fmdom' rt - (perm m \<union> temp m)"
      using False by auto
    ultimately show ?thesis by simp
  qed
next
  case (3 ord rt neighbor rest m)
  show ?case by simp
next
  case (4 ord rt neighbor rest m m')
  then have "perm m \<union> temp m \<subseteq> perm m' \<union> temp m'"
    using visit_marked_mono(1) by blast
  then have "card (fmdom' rt - (perm m' \<union> temp m')) \<le> card (fmdom' rt - (perm m \<union> temp m))"
    by (intro card_mono) auto
  then show ?case by auto
qed

declare visit.simps [simp del] rootLoop.simps [simp del]

definition topSort ::
  "(CellID list \<Rightarrow> CellID list) \<Rightarrow> Spreadsheet \<Rightarrow> CellID list \<Rightarrow> error + CellID list" where
  "topSort ord s startNodes =
     (case visitEach ord (refersTo s) startNodes \<lparr>perm = {}, temp = {}, result = []\<rparr> of
        Inl err \<Rightarrow> Inl err
      | Inr m \<Rightarrow> Inr (result m))"

subsection \<open>Refresh and the two public operations\<close>

text \<open>
  The first part of \<^verbatim>\<open>refresh\<close>, for a cell that holds the expression \<open>e\<close>: the loop
  that deletes \<open>cid\<close> from \<^verbatim>\<open>referredFrom[ref]\<close> for every \<open>ref\<close> of
  \<^verbatim>\<open>refersTo[cid]\<close>, \<^verbatim>\<open>maps.Clear(s.refersTo[cid])\<close>, and the loop that adds an edge for
  every element of \<^verbatim>\<open>CellRefs(*cell.expr)\<close>.
\<close>

definition updateRefs ::
  "(CellID list \<Rightarrow> CellID list) \<Rightarrow> Spreadsheet \<Rightarrow> CellID \<Rightarrow> Expr \<Rightarrow> Spreadsheet" where
  "updateRefs ord s cid e =
     (let rf = fold (\<lambda>ref m. deleteKey m ref cid) (rangeKeys ord (refersTo s) cid) (referredFrom s);
          rt = clearKeys (refersTo s) cid
      in fold (\<lambda>ref s'. addCellReferral s' cid ref) (CellRefs e)
           (s\<lparr>refersTo := rt, referredFrom := rf\<rparr>))"

text \<open>
  The last loop of \<^verbatim>\<open>refresh\<close>: every cell of the order that is in the store gets the
  value \<^verbatim>\<open>s.eval(cid)\<close>, computed in the store as the loop has changed it so far.
\<close>

fun reevaluate :: "Spreadsheet \<Rightarrow> CellID list \<Rightarrow> error option \<times> Spreadsheet" where
  "reevaluate s [] = (None, s)"
| "reevaluate s (cid # rest) =
     (case fmlookup (cells s) cid of
        None \<Rightarrow> reevaluate s rest
      | Some cell \<Rightarrow>
          (case eval s cid of
             Inl err \<Rightarrow> (Some err, s)
           | Inr v \<Rightarrow> reevaluate (s\<lparr>cells := fmupd cid (cell\<lparr>currValue := v\<rparr>) (cells s)\<rparr>) rest))"

text \<open>
  The operations change the spreadsheet in place and return an error or \<^verbatim>\<open>nil\<close>: the
  model returns the error (\<open>None\<close> for \<^verbatim>\<open>nil\<close>) and the spreadsheet as the call leaves
  it, also when it fails.
\<close>

definition refresh ::
  "(CellID list \<Rightarrow> CellID list) \<Rightarrow> Spreadsheet \<Rightarrow> CellID \<Rightarrow> error option \<times> Spreadsheet" where
  "refresh ord s cid =
     (case fmlookup (cells s) cid of
        None \<Rightarrow> (None, s)
      | Some cell \<Rightarrow>
          (let s1 = (case expr cell of None \<Rightarrow> s | Some e \<Rightarrow> updateRefs ord s cid e);
               roots = rootReferrers ord s1 cid
           in case topSort ord s1 roots of
                Inl err \<Rightarrow> (Some err, s1)
              | Inr order \<Rightarrow> reevaluate s1 order))"

text \<open>The argument \<^verbatim>\<open>val any\<close>: an \<^verbatim>\<open>int\<close>, a \<^verbatim>\<open>string\<close>, or a value of another type.\<close>

datatype val = IntVal goint | StrVal string | OtherVal

definition SetCellValue ::
  "(CellID list \<Rightarrow> CellID list) \<Rightarrow> Spreadsheet \<Rightarrow> string \<Rightarrow> val \<Rightarrow> error option \<times> Spreadsheet" where
  "SetCellValue ord s cellID v =
     (case ParseCellID cellID of
        Inl err \<Rightarrow> (Some err, s)
      | Inr cid \<Rightarrow>
          (let s1 = (case fmlookup (cells s) cid of
                       None \<Rightarrow> s\<lparr>cells := fmupd cid \<lparr>currValue = 0, expr = None\<rparr> (cells s)\<rparr>
                     | Some cell \<Rightarrow> s)
           in case v of
                IntVal n \<Rightarrow>
                  refresh ord (s1\<lparr>cells := fmupd cid \<lparr>currValue = n, expr = None\<rparr> (cells s1)\<rparr>) cid
              | StrVal str \<Rightarrow>
                  (case ParseExpr str of
                     Inl err \<Rightarrow> (Some err, s1)
                   | Inr e \<Rightarrow>
                       refresh ord
                         (s1\<lparr>cells := fmupd cid \<lparr>currValue = 0, expr = Some e\<rparr> (cells s1)\<rparr>) cid)
              | OtherVal \<Rightarrow> (Some ErrValueType, s1)))"

definition GetCellValue :: "Spreadsheet \<Rightarrow> string \<Rightarrow> error + goint" where
  "GetCellValue s cellID =
     (case ParseCellID cellID of
        Inl err \<Rightarrow> Inl err
      | Inr cid \<Rightarrow>
          (case fmlookup (cells s) cid of
             None \<Rightarrow> Inr 0
           | Some cell \<Rightarrow> Inr (currValue cell)))"

text \<open>A sequence of \<^verbatim>\<open>SetCellValue\<close> calls, each with its own range order, whatever each returns.\<close>

fun mutate ::
  "Spreadsheet \<Rightarrow> ((CellID list \<Rightarrow> CellID list) \<times> string \<times> val) list \<Rightarrow> Spreadsheet" where
  "mutate s [] = s"
| "mutate s ((ord, cellID, v) # calls) = mutate (snd (SetCellValue ord s cellID v)) calls"

section \<open>Evaluation of the definitions on concrete inputs\<close>

lemmas codec_simps =
  ParseCellID_def matchHere_def upper_def digit_def between_def decodeRowExpr_def Atoi_def

lemmas tokenize_simps =
  tokenize_def tokenLoop.simps skipSpaces.simps scanRun.simps runeMap_def
  TokenAdd_def TokenSub_def TokenMul_def TokenDiv_def

lemmas parse_simps =
  ParseExpr_def parseExpr_def parseTerm_def parseFactor2_def parsePrimary2_def

lemmas sheet_simps =
  SetCellValue_def GetCellValue_def refresh_def updateRefs_def rootReferrers_def
  rootLoop.simps topSort_def visit.simps eval_def NewSpreadsheet_def rangeKeys_def
  addCellReferral_def addKey_def deleteKey_def clearKeys_def enqueue_def Let_def

section \<open>The evaluator: division\<close>

lemma evalExpr_returns: "\<exists>v. evalExpr s e = Inr v"
proof (induction e)
  case (UnaryExpr X Op)
  then show ?case by auto
next
  case (BinaryExpr X Op Y)
  then obtain x y where "evalExpr s X = Inr x" "evalExpr s Y = Inr y" by auto
  then show ?case by (simp add: goQuo_def)
next
  case (ConstExpr v)
  show ?case by simp
next
  case (CellRefExpr ref)
  show ?case by (simp split: option.splits)
qed

text \<open>
  C5. Evaluating a division node: both operands evaluate to integers \<open>x\<close> and \<open>y\<close>, and
  the node evaluates to an integer, never to an error or a panic: to 0 when \<open>y\<close> is 0, and
  otherwise to the quotient of \<open>x\<close> by \<open>y\<close> truncated towards zero, as a 64-bit integer.
\<close>

theorem evalExpr_divide:
  "\<exists>x y. evalExpr s X = Inr x \<and> evalExpr s Y = Inr y \<and>
     evalExpr s (BinaryExpr X TokenDiv Y) =
       Inr (if y = 0 then 0 else word_of_int (sint x sdiv sint y))"
proof -
  obtain x where x: "evalExpr s X = Inr x"
    using evalExpr_returns by blast
  obtain y where y: "evalExpr s Y = Inr y"
    using evalExpr_returns by blast
  have "evalExpr s (BinaryExpr X TokenDiv Y) =
      Inr (if y = 0 then 0 else word_of_int (sint x sdiv sint y))"
    using x y by (simp add: goQuo_def TokenDiv_def TokenAdd_def TokenMul_def TokenSub_def)
  with x y show ?thesis by blast
qed

section \<open>The parser: precedence and associativity\<close>


section \<open>The address codec\<close>

text \<open>
  C6. The claim is that every string which is not one or more capital letters followed
  by one or more digits is refused. The regular expression has no anchors, so a string
  that merely contains an address is accepted: \<^verbatim>\<open>A1!\<close> decodes to the cell of \<^verbatim>\<open>A1\<close>, and
  \<^verbatim>\<open>GetCellValue\<close> answers for it.
\<close>

theorem ParseCellID_unanchored:
  "ParseCellID ''A1!'' = Inr (CellID 0 0) \<and> GetCellValue NewSpreadsheet ''A1!'' = Inr 0"
  by (simp add: codec_simps GetCellValue_def NewSpreadsheet_def)

lemma digit_not_upper: "digit c \<Longrightarrow> \<not> upper c"
  by (auto simp: digit_def upper_def between_def)

lemma matchHere_address:
  assumes "L \<noteq> []" "list_all upper L" "D \<noteq> []" "list_all digit D"
  shows "matchHere (L @ D) = Some (L, D)"
proof -
  have hd: "\<not> upper (hd D)"
    using assms(3,4) by (cases D) (auto dest: digit_not_upper)
  have t: "takeWhile upper (L @ D) = L"
    using assms(2,3) hd by (cases D) (auto simp: list_all_iff takeWhile_append2 takeWhile_eq_Nil_iff)
  have dr: "dropWhile upper (L @ D) = D"
    using assms(2,3) hd by (cases D) (auto simp: list_all_iff dropWhile_append2)
  have d: "takeWhile digit D = D"
    using assms(4) by (simp add: list_all_iff)
  show ?thesis
    by (simp add: matchHere_def Let_def t dr d assms(1,3))
qed

lemma FindStringSubmatch_address:
  assumes "L \<noteq> []" "list_all upper L" "D \<noteq> []" "list_all digit D"
  shows "FindStringSubmatch (L @ D) = Some (L, D)"
proof -
  obtain c cs where "L @ D = c # cs"
    using assms(1) by (cases L) auto
  then show ?thesis
    using matchHere_address [OF assms] by (metis FindStringSubmatch.simps(2) option.simps(5))
qed

lemma checkRunes_upper: "list_all upper L \<Longrightarrow> checkRunes L"
  by (induction L) (auto simp: upper_def between_def)

lemma sumRunes_littleEndian:
  "sumRunes runes currBase sofar = sofar + currBase * of_nat (littleEndian runes)"
  by (induction runes arbitrary: currBase sofar) (simp_all add: algebra_simps)

lemma littleEndian_rev:
  "list_all upper L \<Longrightarrow> littleEndian (rev L) = bijective26 L"
proof (induction L rule: rev_induct)
  case Nil
  show ?case by (simp add: bijective26_def)
next
  case (snoc c L)
  then have "upper c" "list_all upper L" by simp_all
  then have "65 \<le> (of_char c :: nat)"
    by (simp add: upper_def between_def)
  then have "of_char c - of_char (CHR ''A'') + 1 = letterValue c"
    unfolding letterValue_def by simp
  with snoc show ?case by (simp add: bijective26_def)
qed

lemma decodeRowExpr_upper:
  "list_all upper L \<Longrightarrow> decodeRowExpr L = Inr (of_nat (bijective26 L) - 1)"
  by (simp add: decodeRowExpr_def checkRunes_upper sumRunes_littleEndian littleEndian_rev)

lemma Atoi_digits:
  assumes "D \<noteq> []" "list_all digit D"
  shows "Atoi D = (if decimal D < 2 ^ 63 then Some (of_nat (decimal D)) else None)"
proof -
  have "digit (hd D)" using assms by (cases D) auto
  then have "hd D \<noteq> CHR ''+''" "hd D \<noteq> CHR ''-''"
    by (auto simp: digit_def between_def)
  then show ?thesis
    using assms unfolding Atoi_def Let_def by simp
qed

lemma sint_pred_of_nat:
  assumes "n \<le> 2 ^ 63"
  shows "sint (of_nat n - 1 :: goint) = int n - 1"
proof (cases n)
  case 0
  then show ?thesis by simp
next
  case (Suc k)
  with assms have "k < 2 ^ 63" by simp
  then have "sint (of_nat k :: goint) = int k"
    by (simp add: signed_of_nat signed_take_bit_int_eq_self)
  then show ?thesis by (simp add: Suc)
qed

text \<open>
  C7, as amended. For a well-formed address, a run \<open>L\<close> of capital letters followed by a
  run \<open>D\<close> of digits: when the decimal value of \<open>D\<close> is below \<open>2^63\<close>, \<^verbatim>\<open>ParseCellID\<close>
  returns the cell whose row is the bijective base-26 value of \<open>L\<close> minus one and whose
  column is the decimal value of \<open>D\<close> minus one, as 64-bit integers; otherwise it fails
  with \<^verbatim>\<open>ErrParseCellID\<close>. The column read as a signed integer is exactly the decimal
  value minus one; the row is exactly the base-26 value minus one when that value is at
  most \<open>2^63\<close>, and wraps around beyond.
\<close>

theorem ParseCellID_decodes:
  assumes "L \<noteq> []" "list_all upper L" "D \<noteq> []" "list_all digit D"
  shows "ParseCellID (L @ D) =
     (if decimal D < 2 ^ 63
      then Inr (CellID (of_nat (bijective26 L) - 1) (of_nat (decimal D) - 1))
      else Inl ErrParseCellID) \<and>
     (decimal D < 2 ^ 63 \<longrightarrow> sint (of_nat (decimal D) - 1 :: goint) = int (decimal D) - 1) \<and>
     (bijective26 L \<le> 2 ^ 63 \<longrightarrow> sint (of_nat (bijective26 L) - 1 :: goint) = int (bijective26 L) - 1)"
proof (intro conjI impI)
  show "ParseCellID (L @ D) =
     (if decimal D < 2 ^ 63
      then Inr (CellID (of_nat (bijective26 L) - 1) (of_nat (decimal D) - 1))
      else Inl ErrParseCellID)"
    using assms
    by (simp add: ParseCellID_def FindStringSubmatch_address decodeRowExpr_upper Atoi_digits
        del: decimal.simps)
  show "sint (of_nat (decimal D) - 1 :: goint) = int (decimal D) - 1" if "decimal D < 2 ^ 63"
    using that by (intro sint_pred_of_nat) simp
  show "sint (of_nat (bijective26 L) - 1 :: goint) = int (bijective26 L) - 1"
    if "bijective26 L \<le> 2 ^ 63"
    using that by (rule sint_pred_of_nat)
qed

text \<open>The address \<^verbatim>\<open>AB32\<close> of the claim: row 27, column 31.\<close>

theorem ParseCellID_decodes_witness:
  "ParseCellID (''AB'' @ ''32'') = Inr (CellID 27 31) \<and> sint (27 :: goint) = 27 \<and>
   sint (31 :: goint) = 31"
  using ParseCellID_decodes [of "''AB''" "''32''"]
  by (simp add: upper_def digit_def between_def bijective26_def letterValue_def)

text \<open>
  The claim as stated fails on a well-formed address whose digit run does not fit the
  64-bit integer: \<^verbatim>\<open>strconv.Atoi\<close> reports a range error and \<^verbatim>\<open>ParseCellID\<close> returns
  \<^verbatim>\<open>ErrParseCellID\<close> instead of a cell.
\<close>

theorem ParseCellID_range_counterexample:
  "ParseCellID ''A9223372036854775808'' = Inl ErrParseCellID"
  by (simp add: codec_simps)

section \<open>The tokenizer at the end of its input\<close>









section \<open>A formula that does not parse\<close>

text \<open>
  C9. When the formula text does not parse, \<^verbatim>\<open>SetCellValue\<close> returns the error of the
  parser and leaves the spreadsheet as it was: both edge maps are unchanged, every other
  cell is unchanged, and the targeted cell keeps its expression and its cached value. A
  targeted cell that was not in the store is by then in it as the empty cell, value 0 and
  no expression, which is what a missing cell reads as: \<^verbatim>\<open>GetCellValue\<close> and \<^verbatim>\<open>eval\<close>
  answer for every cell as they did before the call.
\<close>

theorem SetCellValue_parse_failure:
  assumes "ParseCellID cellID = Inr cid" and "ParseExpr str = Inl err"
  shows "fst (SetCellValue ord s cellID (StrVal str)) = Some err \<and>
     refersTo (snd (SetCellValue ord s cellID (StrVal str))) = refersTo s \<and>
     referredFrom (snd (SetCellValue ord s cellID (StrVal str))) = referredFrom s \<and>
     (\<forall>c. c \<noteq> cid \<longrightarrow>
        fmlookup (cells (snd (SetCellValue ord s cellID (StrVal str)))) c = fmlookup (cells s) c) \<and>
     fmlookup (cells (snd (SetCellValue ord s cellID (StrVal str)))) cid =
       (case fmlookup (cells s) cid of
          None \<Rightarrow> Some \<lparr>currValue = 0, expr = None\<rparr>
        | Some cell \<Rightarrow> Some cell) \<and>
     (\<forall>a. GetCellValue (snd (SetCellValue ord s cellID (StrVal str))) a = GetCellValue s a) \<and>
     (\<forall>c. eval (snd (SetCellValue ord s cellID (StrVal str))) c = eval s c)"
proof (cases "fmlookup (cells s) cid")
  case None
  then have r: "SetCellValue ord s cellID (StrVal str) =
      (Some err, s\<lparr>cells := fmupd cid \<lparr>currValue = 0, expr = None\<rparr> (cells s)\<rparr>)"
    using assms by (simp add: SetCellValue_def)
  have g: "GetCellValue (s\<lparr>cells := fmupd cid \<lparr>currValue = 0, expr = None\<rparr> (cells s)\<rparr>) a =
      GetCellValue s a" for a
    using None by (auto simp: GetCellValue_def split: sum.splits option.splits)
  have e: "eval (s\<lparr>cells := fmupd cid \<lparr>currValue = 0, expr = None\<rparr> (cells s)\<rparr>) c = eval s c"
    for c
  proof (cases "c = cid")
    case True
    with None show ?thesis by (simp add: eval_def)
  next
    case False
    have "evalExpr (s\<lparr>cells := fmupd cid \<lparr>currValue = 0, expr = None\<rparr> (cells s)\<rparr>) x =
        evalExpr s x" for x
      using None by (induction x) (auto split: option.splits sum.splits)
    with False show ?thesis by (simp add: eval_def split: option.splits)
  qed
  show ?thesis unfolding r using None g e by simp
next
  case (Some cell)
  then have "SetCellValue ord s cellID (StrVal str) = (Some err, s)"
    using assms by (simp add: SetCellValue_def)
  with Some show ?thesis by simp
qed

text \<open>
  The formula \<^verbatim>\<open>=A1*\<close>, which ends in an operator, set in \<^verbatim>\<open>B1\<close>, once in a sheet
  where \<^verbatim>\<open>B1\<close> holds 7 and once in the empty sheet.
\<close>

theorem SetCellValue_parse_failure_witness:
  "SetCellValue (\<lambda>keys. keys)
     \<lparr>cells = fmupd (CellID 1 0) \<lparr>currValue = 7, expr = None\<rparr> fmempty,
      refersTo = fmempty, referredFrom = fmempty\<rparr> ''B1'' (StrVal ''=A1*'') =
   (Some ErrExprParse,
     \<lparr>cells = fmupd (CellID 1 0) \<lparr>currValue = 7, expr = None\<rparr> fmempty,
      refersTo = fmempty, referredFrom = fmempty\<rparr>) \<and>
   fst (SetCellValue (\<lambda>keys. keys) NewSpreadsheet ''B1'' (StrVal ''=A1*'')) = Some ErrExprParse \<and>
   (\<forall>a. GetCellValue (snd (SetCellValue (\<lambda>keys. keys) NewSpreadsheet ''B1'' (StrVal ''=A1*''))) a =
      GetCellValue NewSpreadsheet a)"
proof -
  have c: "ParseCellID ''B1'' = Inr (CellID 1 0)"
    by (simp add: codec_simps)
  have p: "ParseExpr ''=A1*'' = Inl ErrExprParse"
    by (simp add: tokenize_simps codec_simps parse_simps)
  have "SetCellValue (\<lambda>keys. keys)
     \<lparr>cells = fmupd (CellID 1 0) \<lparr>currValue = 7, expr = None\<rparr> fmempty,
      refersTo = fmempty, referredFrom = fmempty\<rparr> ''B1'' (StrVal ''=A1*'') =
   (Some ErrExprParse,
     \<lparr>cells = fmupd (CellID 1 0) \<lparr>currValue = 7, expr = None\<rparr> fmempty,
      refersTo = fmempty, referredFrom = fmempty\<rparr>)"
    by (simp add: SetCellValue_def c p)
  then show ?thesis
    using SetCellValue_parse_failure [OF c p, of "\<lambda>keys. keys" NewSpreadsheet] by simp
qed

end
